theory Spec2Isabelle
  imports Main "HOL-Library.Word"
begin

section \<open>Python values, byte strings, slices and ranges\<close>

text \<open>
  A Python \<open>bytes\<close> object is a list of bytes. The values that reach the payload
  utilities are dynamically typed; \<open>pyobj\<close> holds the kinds that matter here. A Python
  float is kept as \<open>PyFloat w bits\<close>: a float that is exactly representable in the
  IEEE-754 binary format of \<open>w\<close> bytes, given by its bit pattern in that format (the
  conversion between a float and its bit pattern belongs to the C library behind
  \<open>struct\<close>).
\<close>

type_synonym byte = "8 word"

datatype pyobj =
    PyNone
  | PyBool bool
  | PyInt int
  | PyFloat nat nat
  | PyList "pyobj list"

datatype error = ParameterException | StructError | TypeError | ValueError | Unmodelled

text \<open>Python truthiness (\<open>if bit:\<close>).\<close>

fun truthy :: "pyobj \<Rightarrow> bool" where
  "truthy PyNone = False"
| "truthy (PyBool b) = b"
| "truthy (PyInt i) = (i \<noteq> 0)"
| "truthy (PyFloat w bits) = (bits mod 2 ^ (8 * w - 1) \<noteq> 0)"
| "truthy (PyList xs) = (xs \<noteq> [])"

text \<open>
  \<open>xs[a:b]\<close>: a negative index counts from the end, and both indices are clamped to
  the list, so a slice never raises.
\<close>

definition slice_index :: "nat \<Rightarrow> int \<Rightarrow> nat" where
  "slice_index n i = (if i < 0 then nat (max (i + int n) 0) else min (nat i) n)"

definition py_slice :: "'a list \<Rightarrow> int \<Rightarrow> int \<Rightarrow> 'a list" where
  "py_slice xs a b =
     (let lo = slice_index (length xs) a; hi = slice_index (length xs) b
      in take (hi - lo) (drop lo xs))"

text \<open>\<open>range(start, stop, step)\<close> for a positive step.\<close>

definition py_range :: "nat \<Rightarrow> nat \<Rightarrow> nat \<Rightarrow> nat list" where
  "py_range start stop step =
     map (\<lambda>k. start + k * step) [0..<(stop - start + step - 1) div step]"

text \<open>
  Cutting a list into consecutive pieces of \<open>n\<close> elements, by recursion: what the
  comprehensions \<open>[xs[i : i + n] for i in range(0, len(xs), n)]\<close> of the source
  compute, in the form the proofs work with.
\<close>

fun chunks :: "nat \<Rightarrow> 'a list \<Rightarrow> 'a list list" where
  "chunks n xs = (if n = 0 \<or> xs = [] then [] else take n xs # chunks n (drop n xs))"

declare chunks.simps [simp del]

text \<open>Running a list of fallible steps: the first exception ends the comprehension.\<close>

fun sequence :: "(error + 'a) list \<Rightarrow> error + 'a list" where
  "sequence [] = Inr []"
| "sequence (Inl e # rs) = Inl e"
| "sequence (Inr x # rs) = (case sequence rs of Inl e \<Rightarrow> Inl e | Inr xs \<Rightarrow> Inr (x # xs))"

section \<open>The \<open>struct\<close> module, as far as the payload utilities use it\<close>

text \<open>
  Modelled from the spec: \<open>pymodbus.constants.Endian\<close> is not among the sources; the
  spec (section 3) gives the two orders big and little. The prefix \<open>!\<close> of a struct
  format is network order, which is big-endian.
\<close>

datatype Endian = Big | Little

definition network :: Endian where
  "network = Big"

fun be_bytes :: "nat \<Rightarrow> nat \<Rightarrow> byte list" where
  "be_bytes 0 v = []"
| "be_bytes (Suc n) v = be_bytes n (v div 256) @ [of_nat (v mod 256)]"

definition be_value :: "byte list \<Rightarrow> nat" where
  "be_value bs = foldl (\<lambda>a b. a * 256 + unat b) 0 bs"

definition in_order :: "Endian \<Rightarrow> byte list \<Rightarrow> byte list" where
  "in_order ord bs = (case ord of Big \<Rightarrow> bs | Little \<Rightarrow> rev bs)"

definition calcsize :: "char \<Rightarrow> nat option" where
  "calcsize =
     map_of [(CHR ''b'', 1), (CHR ''B'', 1), (CHR ''h'', 2), (CHR ''H'', 2), (CHR ''e'', 2),
             (CHR ''i'', 4), (CHR ''I'', 4), (CHR ''l'', 4), (CHR ''L'', 4), (CHR ''f'', 4),
             (CHR ''q'', 8), (CHR ''Q'', 8), (CHR ''d'', 8)]"

definition is_float_code :: "char \<Rightarrow> bool" where
  "is_float_code c = (c \<in> set ''efd'')"

definition is_signed_code :: "char \<Rightarrow> bool" where
  "is_signed_code c = (c \<in> set ''bhilq'')"

text \<open>An integer argument of \<open>pack\<close>; \<open>bool\<close> is a subclass of \<open>int\<close>.\<close>

fun as_int :: "pyobj \<Rightarrow> int option" where
  "as_int (PyInt i) = Some i"
| "as_int (PyBool b) = Some (if b then 1 else 0)"
| "as_int v = None"

text \<open>
  \<open>pack(order + code, value)\<close> for one value. An integer out of the range of the code,
  or an argument of the wrong kind, raises \<open>struct.error\<close>. A float code converts a
  Python number to the format's width; the model covers the floats that are given at that
  width and answers \<open>Unmodelled\<close> for the other numbers.
\<close>

definition pack :: "Endian \<Rightarrow> char \<Rightarrow> pyobj \<Rightarrow> error + byte list" where
  "pack ord c v =
     (case calcsize c of
        None \<Rightarrow> Inl StructError
      | Some n \<Rightarrow>
          if is_float_code c then
            (case v of
               PyFloat w bits \<Rightarrow>
                 if w = n \<and> bits < 256 ^ n then Inr (in_order ord (be_bytes n bits))
                 else Inl Unmodelled
             | PyInt i \<Rightarrow> Inl Unmodelled
             | PyBool b \<Rightarrow> Inl Unmodelled
             | _ \<Rightarrow> Inl StructError)
          else
            (case as_int v of
               None \<Rightarrow> Inl StructError
             | Some i \<Rightarrow>
                 let lo = (if is_signed_code c then - (256 ^ n div 2) else 0);
                     hi = (if is_signed_code c then 256 ^ n div 2 else 256 ^ n)
                 in if lo \<le> i \<and> i < hi
                    then Inr (in_order ord (be_bytes n (nat (i mod 256 ^ n))))
                    else Inl StructError))"

text \<open>
  \<open>unpack(order + code, buffer)[0]\<close>: the buffer must have exactly the size of the
  format, or \<open>struct.error\<close> is raised.
\<close>

definition unpack :: "Endian \<Rightarrow> char \<Rightarrow> byte list \<Rightarrow> error + pyobj" where
  "unpack ord c bs =
     (case calcsize c of
        None \<Rightarrow> Inl StructError
      | Some n \<Rightarrow>
          if length bs \<noteq> n then Inl StructError
          else
            let u = be_value (in_order ord bs)
            in if is_float_code c then Inr (PyFloat n u)
               else if is_signed_code c
               then Inr (PyInt (if u < 256 ^ n div 2 then int u else int u - 256 ^ n))
               else Inr (PyInt (int u)))"

text \<open>\<open>unpack(f"!{n}H", buffer)\<close>: \<open>n\<close> unsigned 16-bit values.\<close>

definition unpack_nH :: "Endian \<Rightarrow> nat \<Rightarrow> byte list \<Rightarrow> error + pyobj list" where
  "unpack_nH ord n bs =
     (if length bs \<noteq> 2 * n then Inl StructError
      else sequence (map (\<lambda>i. unpack ord CHR ''H'' (py_slice bs (int i) (int i + 2)))
                         (py_range 0 (2 * n) 2)))"

section \<open>Helpers of \<open>pymodbus.utilities\<close>\<close>

text \<open>
  The bits of a byte, most significant first, and the byte of a list of bits read the same
  way.
\<close>

fun msb_bits :: "nat \<Rightarrow> nat \<Rightarrow> bool list" where
  "msb_bits 0 v = []"
| "msb_bits (Suc n) v = msb_bits n (v div 2) @ [odd v]"

definition bits_value :: "bool list \<Rightarrow> nat" where
  "bits_value bs = foldl (\<lambda>a b. 2 * a + (if b then 1 else 0)) 0 bs"

definition byte_of_bits :: "bool list \<Rightarrow> byte" where
  "byte_of_bits bs = of_nat (bits_value bs)"

definition bits_of_byte :: "byte \<Rightarrow> bool list" where
  "bits_of_byte w = msb_bits 8 (unat w)"

text \<open>
  Modelled from the spec: \<open>pack_bitstring\<close> of \<open>pymodbus.utilities\<close> is not among the
  sources. \<open>add_bits\<close> is this function and nothing else, and the spec (section 4.1) says
  of it: the input is padded on the left with false until its length is a multiple of 8,
  then each group of 8 is reversed and packed into one byte, most significant bit first.
\<close>

definition pack_bitstring :: "bool list \<Rightarrow> byte list" where
  "pack_bitstring bits =
     (let padded = replicate ((8 - length bits mod 8) mod 8) False @ bits
      in map (\<lambda>i. byte_of_bits (rev (py_slice padded (int i) (int i + 8))))
             (py_range 0 (length padded) 8))"

text \<open>
  Modelled from the spec: \<open>unpack_bitstring\<close> of \<open>pymodbus.utilities\<close> is not among the
  sources. The spec (section 4.2, \<open>decode_bits\<close>) says that the 8 bits of a byte come
  back in the convention that produced the packed byte: the reverse of the bits read most
  significant first.
\<close>

definition unpack_bitstring :: "byte list \<Rightarrow> bool list" where
  "unpack_bitstring bs = concat (map (\<lambda>w. rev (bits_of_byte w)) bs)"

text \<open>
  Modelled from the spec: \<open>make_byte_string\<close> of \<open>pymodbus.utilities\<close> is not among
  the sources. The spec gives it no effect on a byte buffer: the decode operations unpack
  the consumed bytes directly (section 4.2).
\<close>

definition make_byte_string :: "byte list \<Rightarrow> byte list" where
  "make_byte_string bs = bs"

section \<open>\<open>BinaryPayloadBuilder\<close>\<close>

definition lower :: "char \<Rightarrow> char" where
  "lower c =
     (case map_of (zip ''ABCDEFGHIJKLMNOPQRSTUVWXYZ'' ''abcdefghijklmnopqrstuvwxyz'') c of
        None \<Rightarrow> c
      | Some d \<Rightarrow> d)"

definition WC :: "char \<Rightarrow> nat option" where
  "WC =
     map_of [(CHR ''b'', 1), (CHR ''h'', 2), (CHR ''e'', 2), (CHR ''i'', 4), (CHR ''l'', 4),
             (CHR ''q'', 8), (CHR ''f'', 4), (CHR ''d'', 8)]"

record builder =
  b_payload :: "byte list list"
  b_byteorder :: Endian
  b_wordorder :: Endian
  b_repack :: bool

text \<open>\<open>__init__\<close>: \<open>self._payload = payload or []\<close>.\<close>

definition BinaryPayloadBuilder ::
  "byte list list option \<Rightarrow> Endian \<Rightarrow> Endian \<Rightarrow> bool \<Rightarrow> builder" where
  "BinaryPayloadBuilder payload byteorder wordorder repack =
     \<lparr>b_payload = (case payload of None \<Rightarrow> [] | Some p \<Rightarrow> p),
      b_byteorder = byteorder, b_wordorder = wordorder, b_repack = repack\<rparr>"

definition pack_words :: "builder \<Rightarrow> char \<Rightarrow> pyobj \<Rightarrow> error + byte list" where
  "pack_words self fstring val =
     (case pack network fstring val of
        Inl e \<Rightarrow> Inl e
      | Inr packed \<Rightarrow>
          (case WC (lower fstring) of
             None \<Rightarrow> Inl TypeError
           | Some wc \<Rightarrow>
               (case unpack_nH network (wc div 2) packed of
                  Inl e \<Rightarrow> Inl e
                | Inr ws \<Rightarrow>
                    (case sequence (map (pack (b_byteorder self) CHR ''H'')
                              (if b_wordorder self = Little then rev ws else ws)) of
                       Inl e \<Rightarrow> Inl e
                     | Inr ps \<Rightarrow> Inr (concat ps)))))"

text \<open>
  The materialize operations return their result together with the builder as they leave
  it, so that what they do to the builder is part of the model.
\<close>

definition to_string :: "builder \<Rightarrow> byte list \<times> builder" where
  "to_string self = (concat (b_payload self), self)"

text \<open>\<open>BinaryPayloadBuilder.reset\<close>.\<close>

definition reset_builder :: "builder \<Rightarrow> builder" where
  "reset_builder self = self\<lparr>b_payload := []\<rparr>"

definition build :: "builder \<Rightarrow> byte list list \<times> builder" where
  "build self =
     (case to_string self of
        (string, self1) \<Rightarrow>
          let len = length string;
              padded = string @ replicate (len mod 2) 0
          in (map (\<lambda>i. py_slice padded (int i) (int i + 2)) (py_range 0 len 2), self1))"

definition to_registers :: "builder \<Rightarrow> (error + pyobj list) \<times> builder" where
  "to_registers self =
     (case build self of
        (payload, self1) \<Rightarrow>
          (if b_repack self1
           then sequence (map (unpack (b_byteorder self1) CHR ''H'') payload)
           else sequence (map (unpack network CHR ''H'') payload),
           self1))"

text \<open>
  \<open>format(reg, "016b")\<close> followed by \<open>bool(int(bit))\<close> for each character: the
  binary digits of the register, most significant first, padded with zeros to 16 places.
  A negative number starts with a minus sign, on which \<open>int\<close> raises.
\<close>

fun bin_digits :: "nat \<Rightarrow> bool list" where
  "bin_digits n = (if n < 2 then [n = 1] else bin_digits (n div 2) @ [odd n])"

declare bin_digits.simps [simp del]

definition format_016b :: "pyobj \<Rightarrow> error + bool list" where
  "format_016b reg =
     (case as_int reg of
        None \<Rightarrow> Inl TypeError
      | Some i \<Rightarrow>
          if i < 0 then Inl ValueError
          else let ds = bin_digits (nat i)
               in Inr (replicate (16 - length ds) False @ ds))"

definition to_coils :: "builder \<Rightarrow> (error + bool list) \<times> builder" where
  "to_coils self =
     (case to_registers self of
        (Inl e, self1) \<Rightarrow> (Inl e, self1)
      | (Inr payload, self1) \<Rightarrow>
          (case sequence (map format_016b payload) of
             Inl e \<Rightarrow> (Inl e, self1)
           | Inr bitss \<Rightarrow> (Inr (concat bitss), self1)))"

text \<open>
  The encode operations append one fragment. An exception of \<open>pack\<close> is raised before
  the append, so a failed call leaves the builder as it was.
\<close>

definition append_fragment :: "builder \<Rightarrow> error + byte list \<Rightarrow> error + builder" where
  "append_fragment self r =
     (case r of
        Inl e \<Rightarrow> Inl e
      | Inr bs \<Rightarrow> Inr (self\<lparr>b_payload := b_payload self @ [bs]\<rparr>))"




definition add_32bit_uint :: "builder \<Rightarrow> pyobj \<Rightarrow> error + builder" where
  "add_32bit_uint self val = append_fragment self (pack_words self CHR ''I'' val)"









text \<open>
  \<open>add_string\<close>: \<open>pack(order + str(len(value)) + "s", value)\<close> of a byte string is the
  byte string itself, whatever the order.
\<close>

definition add_string :: "builder \<Rightarrow> byte list \<Rightarrow> error + builder" where
  "add_string self val = append_fragment self (Inr (make_byte_string val))"

section \<open>\<open>BinaryPayloadDecoder\<close>\<close>

record decoder =
  d_payload :: "byte list"
  d_pointer :: int
  d_byteorder :: Endian
  d_wordorder :: Endian

definition BinaryPayloadDecoder :: "byte list \<Rightarrow> Endian \<Rightarrow> Endian \<Rightarrow> decoder" where
  "BinaryPayloadDecoder payload byteorder wordorder =
     \<lparr>d_payload = payload, d_pointer = 0, d_byteorder = byteorder, d_wordorder = wordorder\<rparr>"


definition bit_chunks :: "'a list \<Rightarrow> nat \<Rightarrow> 'a list list" where
  "bit_chunks coils sz =
     map (\<lambda>i. py_slice coils (int i) (int i + int sz)) (py_range 0 (length coils) sz)"

text \<open>
  \<open>fromCoils\<close>: the coils are used through their truth value only. The decoder is built
  by \<open>cls(payload, byteorder)\<close>, so its word order is the default of \<open>__init__\<close>.
\<close>

definition fromCoils :: "pyobj \<Rightarrow> Endian \<Rightarrow> Endian \<Rightarrow> error + decoder" where
  "fromCoils coils byteorder wordorder =
     (case coils of
        PyList cs \<Rightarrow>
          let bits = map truthy cs;
              padding = length bits mod 8;
              bits1 = (if padding \<noteq> 0 then replicate padding False @ bits else bits);
              chunks = bit_chunks bits1 8
          in Inr (BinaryPayloadDecoder
                    (foldl (\<lambda>payload chunk. payload @ pack_bitstring (rev chunk)) [] chunks)
                    byteorder Big)
      | _ \<Rightarrow> Inl ParameterException)"

definition unpack_words :: "decoder \<Rightarrow> char \<Rightarrow> byte list \<Rightarrow> error + byte list" where
  "unpack_words self fstring handle =
     (case WC (lower fstring) of
        None \<Rightarrow> Inl TypeError
      | Some wc \<Rightarrow>
          (case unpack_nH network (wc div 2) (make_byte_string handle) of
             Inl e \<Rightarrow> Inl e
           | Inr ws \<Rightarrow>
               (case sequence (map (pack (d_byteorder self) CHR ''H'')
                         (if d_wordorder self = Little then rev ws else ws)) of
                  Inl e \<Rightarrow> Inl e
                | Inr ps \<Rightarrow> Inr (concat ps))))"

definition reset :: "decoder \<Rightarrow> decoder" where
  "reset self = self\<lparr>d_pointer := 0\<rparr>"

text \<open>
  Every decode operation moves the pointer first and reads afterwards, so the pointer has
  moved also when the read raises: the operations return the outcome of the read together
  with the decoder as they leave it.
\<close>

definition advance :: "decoder \<Rightarrow> int \<Rightarrow> decoder" where
  "advance self n = self\<lparr>d_pointer := d_pointer self + n\<rparr>"

definition consumed :: "decoder \<Rightarrow> int \<Rightarrow> byte list" where
  "consumed self n = py_slice (d_payload self) (d_pointer self - n) (d_pointer self)"

definition decode_direct :: "decoder \<Rightarrow> char \<Rightarrow> int \<Rightarrow> (error + pyobj) \<times> decoder" where
  "decode_direct self code n =
     (let self1 = advance self n;
          handle = make_byte_string (consumed self1 n)
      in (unpack (d_byteorder self1) code handle, self1))"

definition decode_words :: "decoder \<Rightarrow> char \<Rightarrow> int \<Rightarrow> (error + pyobj) \<times> decoder" where
  "decode_words self fstring n =
     (let self1 = advance self n
      in (case unpack_words self1 fstring (consumed self1 n) of
            Inl e \<Rightarrow> Inl e
          | Inr handle \<Rightarrow> unpack network fstring handle,
          self1))"

definition decode_8bit_uint :: "decoder \<Rightarrow> (error + pyobj) \<times> decoder" where
  "decode_8bit_uint self = decode_direct self CHR ''B'' 1"

definition decode_bits :: "decoder \<Rightarrow> bool list \<times> decoder" where
  "decode_bits self =
     (let self1 = advance self 1;
          handle = make_byte_string (consumed self1 1)
      in (unpack_bitstring handle, self1))"

definition decode_16bit_uint :: "decoder \<Rightarrow> (error + pyobj) \<times> decoder" where
  "decode_16bit_uint self = decode_direct self CHR ''H'' 2"

definition decode_32bit_uint :: "decoder \<Rightarrow> (error + pyobj) \<times> decoder" where
  "decode_32bit_uint self = decode_words self CHR ''I'' 4"

definition decode_64bit_uint :: "decoder \<Rightarrow> (error + pyobj) \<times> decoder" where
  "decode_64bit_uint self = decode_words self CHR ''Q'' 8"

definition decode_8bit_int :: "decoder \<Rightarrow> (error + pyobj) \<times> decoder" where
  "decode_8bit_int self = decode_direct self CHR ''b'' 1"

definition decode_16bit_int :: "decoder \<Rightarrow> (error + pyobj) \<times> decoder" where
  "decode_16bit_int self = decode_direct self CHR ''h'' 2"

definition decode_32bit_int :: "decoder \<Rightarrow> (error + pyobj) \<times> decoder" where
  "decode_32bit_int self = decode_words self CHR ''i'' 4"

definition decode_64bit_int :: "decoder \<Rightarrow> (error + pyobj) \<times> decoder" where
  "decode_64bit_int self = decode_words self CHR ''q'' 8"

definition decode_16bit_float :: "decoder \<Rightarrow> (error + pyobj) \<times> decoder" where
  "decode_16bit_float self = decode_words self CHR ''e'' 2"

definition decode_32bit_float :: "decoder \<Rightarrow> (error + pyobj) \<times> decoder" where
  "decode_32bit_float self = decode_words self CHR ''f'' 4"

definition decode_64bit_float :: "decoder \<Rightarrow> (error + pyobj) \<times> decoder" where
  "decode_64bit_float self = decode_words self CHR ''d'' 8"

definition decode_string :: "decoder \<Rightarrow> int \<Rightarrow> byte list \<times> decoder" where
  "decode_string self sz =
     (let self1 = advance self sz in (consumed self1 sz, self1))"

definition skip_bytes :: "decoder \<Rightarrow> int \<Rightarrow> decoder" where
  "skip_bytes self nbytes = advance self nbytes"

section \<open>Notions used in the properties\<close>


text \<open>
  The operations of a decoder, as data, so that a property can speak of any sequence of
  them: \<open>run_op\<close> is the decoder after the call (also when the call raised),
  \<open>op_width\<close> the byte width of what the call decodes.
\<close>

datatype decoder_op =
    Decode_8bit_uint | Decode_bits | Decode_16bit_uint | Decode_32bit_uint
  | Decode_64bit_uint | Decode_8bit_int | Decode_16bit_int | Decode_32bit_int
  | Decode_64bit_int | Decode_16bit_float | Decode_32bit_float | Decode_64bit_float
  | Decode_string int | Skip_bytes int | Reset

fun run_op :: "decoder_op \<Rightarrow> decoder \<Rightarrow> decoder" where
  "run_op Decode_8bit_uint d = snd (decode_8bit_uint d)"
| "run_op Decode_bits d = snd (decode_bits d)"
| "run_op Decode_16bit_uint d = snd (decode_16bit_uint d)"
| "run_op Decode_32bit_uint d = snd (decode_32bit_uint d)"
| "run_op Decode_64bit_uint d = snd (decode_64bit_uint d)"
| "run_op Decode_8bit_int d = snd (decode_8bit_int d)"
| "run_op Decode_16bit_int d = snd (decode_16bit_int d)"
| "run_op Decode_32bit_int d = snd (decode_32bit_int d)"
| "run_op Decode_64bit_int d = snd (decode_64bit_int d)"
| "run_op Decode_16bit_float d = snd (decode_16bit_float d)"
| "run_op Decode_32bit_float d = snd (decode_32bit_float d)"
| "run_op Decode_64bit_float d = snd (decode_64bit_float d)"
| "run_op (Decode_string n) d = snd (decode_string d n)"
| "run_op (Skip_bytes n) d = skip_bytes d n"
| "run_op Reset d = reset d"

fun op_width :: "decoder_op \<Rightarrow> int" where
  "op_width Decode_8bit_uint = 1"
| "op_width Decode_bits = 1"
| "op_width Decode_16bit_uint = 2"
| "op_width Decode_32bit_uint = 4"
| "op_width Decode_64bit_uint = 8"
| "op_width Decode_8bit_int = 1"
| "op_width Decode_16bit_int = 2"
| "op_width Decode_32bit_int = 4"
| "op_width Decode_64bit_int = 8"
| "op_width Decode_16bit_float = 2"
| "op_width Decode_32bit_float = 4"
| "op_width Decode_64bit_float = 8"
| "op_width (Decode_string n) = n"
| "op_width (Skip_bytes n) = n"
| "op_width Reset = 0"

fun run_ops :: "decoder_op list \<Rightarrow> decoder \<Rightarrow> decoder" where
  "run_ops [] d = d"
| "run_ops (x # xs) d = run_ops xs (run_op x d)"

text \<open>An operation other than \<open>reset\<close> whose width is not negative.\<close>

definition forward_op :: "decoder_op \<Rightarrow> bool" where
  "forward_op x = (x \<noteq> Reset \<and> 0 \<le> op_width x)"

text \<open>The bytes of the buffer from the pointer on, for a pointer that is not negative.\<close>

definition remaining :: "decoder \<Rightarrow> byte list" where
  "remaining d = drop (nat (d_pointer d)) (d_payload d)"

text \<open>The string of \<open>build\<close> after its padding step.\<close>

definition padded :: "byte list \<Rightarrow> byte list" where
  "padded s = s @ replicate (length s mod 2) 0"








section \<open>Slices and chunks\<close>

lemma slice_index_nat: "slice_index len (int i) = min i len"
  by (simp add: slice_index_def)

lemma take_min_length: "take (min n (length ys)) ys = take n ys"
  by (cases "n \<le> length ys") (simp_all add: min_def)

lemma py_slice_nat: "py_slice xs (int i) (int i + int n) = take n (drop i xs)"
proof -
  have e: "int i + int n = int (i + n)" by simp
  show ?thesis
  proof (cases "i \<le> length xs")
    case True
    then have "min (i + n) (length xs) - i = min n (length (drop i xs))"
      by (auto simp: min_def)
    moreover have "min i (length xs) = i" using True by simp
    ultimately have "py_slice xs (int i) (int (i + n))
        = take (min n (length (drop i xs))) (drop i xs)"
      unfolding py_slice_def Let_def slice_index_nat by simp
    then show ?thesis unfolding e by (simp only: take_min_length)
  next
    case False
    then show ?thesis
      unfolding e py_slice_def Let_def slice_index_nat by simp
  qed
qed

lemma chunks_Nil [simp]: "chunks n [] = []"
  by (simp add: chunks.simps)

lemma chunks_0 [simp]: "chunks 0 xs = []"
  by (simp add: chunks.simps)

lemma chunks_step: "0 < n \<Longrightarrow> xs \<noteq> [] \<Longrightarrow> chunks n xs = take n xs # chunks n (drop n xs)"
  by (subst chunks.simps) simp



lemma concat_chunks: "0 < n \<Longrightarrow> concat (chunks n xs) = xs"
proof (induction n xs rule: chunks.induct)
  case (1 n xs)
  show ?case
  proof (cases "xs = []")
    case True
    then show ?thesis by simp
  next
    case False
    note step = chunks_step [OF 1(2) False]
    have "concat (chunks n (drop n xs)) = drop n xs" using 1 False by simp
    then show ?thesis by (simp add: step)
  qed
qed

lemma length_chunks: "0 < n \<Longrightarrow> length (chunks n xs) = (length xs + n - 1) div n"
proof (induction n xs rule: chunks.induct)
  case (1 n xs)
  show ?case
  proof (cases "xs = []")
    case True
    with 1 show ?thesis by simp
  next
    case False
    then have pos: "0 < length xs" by simp
    note step = chunks_step [OF 1(2) False]
    have ih: "length (chunks n (drop n xs)) = (length xs - n + n - 1) div n"
      using 1 False by simp
    show ?thesis
    proof (cases "n \<le> length xs")
      case True
      have a: "length xs + n - 1 = (length xs - 1) + n" using pos by arith
      have b: "(length xs - 1 + n) div n = Suc ((length xs - 1) div n)"
        using 1(2) div_add_self2 [of n "length xs - 1"] by simp
      have c: "length xs - n + n - 1 = length xs - 1" using True by simp
      show ?thesis unfolding step a b using ih c by simp
    next
      case n: False
      have a: "length xs + n - 1 = (length xs - 1) + n" using pos by arith
      have b: "(length xs - 1 + n) div n = Suc ((length xs - 1) div n)"
        using 1(2) div_add_self2 [of n "length xs - 1"] by simp
      have c: "(length xs - 1) div n = 0" using n by simp
      show ?thesis unfolding step a b c using n by simp
    qed
  qed
qed

lemma chunks_lengths:
  "0 < n \<Longrightarrow> n dvd length xs \<Longrightarrow> c \<in> set (chunks n xs) \<Longrightarrow> length c = n"
proof (induction n xs rule: chunks.induct)
  case (1 n xs)
  show ?case
  proof (cases "xs = []")
    case True
    with 1 show ?thesis by simp
  next
    case False
    note step = chunks_step [OF 1(2) False]
    from 1(3) obtain k where k: "length xs = n * k" by (auto simp: dvd_def)
    with False 1(2) have "0 < k" by (cases k) auto
    then have le: "n \<le> length xs" using k by (cases k) auto
    have dv: "n dvd length (drop n xs)" using k by simp
    from 1(4) have "c = take n xs \<or> c \<in> set (chunks n (drop n xs))"
      unfolding step by simp
    then show ?thesis
    proof
      assume "c = take n xs"
      then show ?thesis using le by simp
    next
      assume "c \<in> set (chunks n (drop n xs))"
      then show ?thesis using 1(1) False 1(2) dv by blast
    qed
  qed
qed

section \<open>Big-endian byte strings\<close>

lemma slices_chunks_aux:
  "0 < n \<Longrightarrow> map (\<lambda>k. take n (drop (k * n) xs)) [0..<length (chunks n xs)] = chunks n xs"
proof (induction n xs rule: chunks.induct)
  case (1 n xs)
  show ?case
  proof (cases "xs = []")
    case True
    then show ?thesis by simp
  next
    case False
    note step = chunks_step [OF 1(2) False]
    let ?m = "length (chunks n (drop n xs))"
    have ih: "map (\<lambda>k. take n (drop (k * n) (drop n xs))) [0..<?m] = chunks n (drop n xs)"
      using 1 False by simp
    have "map (\<lambda>k. take n (drop (k * n) xs)) [0..<Suc ?m]
            = take n xs # map (\<lambda>k. take n (drop (k * n) xs)) (map Suc [0..<?m])"
      by (simp only: map_Suc_upt upt_conv_Cons [of 0 "Suc ?m"] zero_less_Suc list.map) simp
    also have "\<dots> = take n xs # map (\<lambda>k. take n (drop (k * n) (drop n xs))) [0..<?m]"
      by (simp add: add.commute)
    finally show ?thesis unfolding step using ih by simp
  qed
qed

lemma slices_chunks:
  "0 < n \<Longrightarrow>
   map (\<lambda>i. py_slice xs (int i) (int i + int n)) (py_range 0 (length xs) n) = chunks n xs"
  using slices_chunks_aux [of n xs]
  by (simp add: py_range_def py_slice_nat length_chunks o_def)

lemma slices2_chunks:
  "map (\<lambda>i. py_slice xs (int i) (int i + 2)) (py_range 0 (length xs) 2) = chunks 2 xs"
  using slices_chunks [of 2 xs] by simp


lemma length_be_bytes [simp]: "length (be_bytes n v) = n"
  by (induction n arbitrary: v) auto


lemma be_value_Nil [simp]: "be_value [] = 0"
  by (simp add: be_value_def)





section \<open>Construction, materialization and validation\<close>

lemma sequence_map_Inr: "sequence (map (\<lambda>x. Inr (f x)) xs) = Inr (map f xs)"
  by (induction xs) auto


lemma calcsize_H [simp]: "calcsize CHR ''H'' = Some 2"
  by (simp add: calcsize_def)

lemma not_float_H [simp]: "\<not> is_float_code CHR ''H''"
  by (simp add: is_float_code_def)

lemma not_signed_H [simp]: "\<not> is_signed_code CHR ''H''"
  by (simp add: is_signed_code_def)



text \<open>
  C2: encoding the unsigned 32-bit value 1 with byte order little and word order big, and
  reading the registers without repack, gives the two registers 0x0000 and 0x0100.
\<close>

theorem worked_vector_u32:
  "(case add_32bit_uint (BinaryPayloadBuilder None Little Big False) (PyInt 1) of
      Inl e \<Rightarrow> Inl e
    | Inr b \<Rightarrow> fst (to_registers b)) = Inr [PyInt 0x0000, PyInt 0x0100]"
  by code_simp

text \<open>
  C9: \<open>to_string\<close>, \<open>build\<close>, \<open>to_registers\<close> and \<open>to_coils\<close> leave the builder,
  and so its list of fragments, as it was, and a second call returns what the first did.
\<close>

theorem materialize_pure:
  "snd (to_string b) = b \<and> snd (build b) = b \<and> snd (to_registers b) = b \<and>
   snd (to_coils b) = b \<and>
   fst (to_string (snd (to_string b))) = fst (to_string b) \<and>
   fst (build (snd (build b))) = fst (build b) \<and>
   fst (to_registers (snd (to_registers b))) = fst (to_registers b) \<and>
   fst (to_coils (snd (to_coils b))) = fst (to_coils b)"
proof -
  have s: "snd (to_string b) = b" by (simp add: to_string_def)
  have u: "snd (build b) = b" by (simp add: build_def to_string_def Let_def)
  have r: "snd (to_registers b) = b"
    by (simp add: to_registers_def build_def to_string_def Let_def)
  have c: "snd (to_coils b) = b"
    using r by (cases "to_registers b") (auto simp: to_coils_def split: sum.splits)
  show ?thesis by (simp only: s u r c simp_thms)
qed

text \<open>
  C10: \<open>fromCoils\<close> gives the same decoder for any two word orders, and the decoder
  made from a list of booleans has the default word order, big.
\<close>

theorem fromCoils_wordorder_ignored:
  "fromCoils coils byteorder wo1 = fromCoils coils byteorder wo2 \<and>
   (\<exists>d. fromCoils (PyList (map PyBool bits)) byteorder wo1 = Inr d \<and> d_wordorder d = Big)"
  by (cases coils) (simp_all add: fromCoils_def BinaryPayloadDecoder_def Let_def)



section \<open>The read pointer\<close>



lemma pointer_run_op:
  "d_pointer (run_op x d) = (if x = Reset then 0 else d_pointer d + op_width x)"
  by (cases x)
     (simp_all add: decode_8bit_uint_def decode_bits_def decode_16bit_uint_def
        decode_32bit_uint_def decode_64bit_uint_def decode_8bit_int_def decode_16bit_int_def
        decode_32bit_int_def decode_64bit_int_def decode_16bit_float_def
        decode_32bit_float_def decode_64bit_float_def decode_string_def skip_bytes_def
        reset_def decode_direct_def decode_words_def advance_def Let_def)

lemma payload_run_op: "d_payload (run_op x d) = d_payload d"
  by (cases x)
     (simp_all add: decode_8bit_uint_def decode_bits_def decode_16bit_uint_def
        decode_32bit_uint_def decode_64bit_uint_def decode_8bit_int_def decode_16bit_int_def
        decode_32bit_int_def decode_64bit_int_def decode_16bit_float_def
        decode_32bit_float_def decode_64bit_float_def decode_string_def skip_bytes_def
        reset_def decode_direct_def decode_words_def advance_def Let_def)

lemma payload_run_ops: "d_payload (run_ops xs d) = d_payload d"
  by (induction xs arbitrary: d) (simp_all add: payload_run_op)

lemma pointer_run_ops:
  "list_all forward_op xs \<Longrightarrow> d_pointer d \<le> d_pointer (run_ops xs d)"
proof (induction xs arbitrary: d)
  case Nil
  then show ?case by simp
next
  case (Cons x xs)
  then have "d_pointer d \<le> d_pointer (run_op x d)"
    by (simp add: pointer_run_op forward_op_def)
  also have "\<dots> \<le> d_pointer (run_ops xs (run_op x d))"
    using Cons by simp
  finally show ?case by simp
qed

text \<open>
  C8, as the code has it: every decode operation moves the pointer by exactly the byte
  width of what it decodes (1, 2, 4 or 8; the given size for \<open>decode_string\<close> and
  \<open>skip_bytes\<close>), also when the read raises; \<open>reset\<close> sets the pointer to zero; no
  operation alters the buffer; and over any sequence of operations without \<open>reset\<close>
  whose sizes are not negative the pointer does not decrease.
\<close>

theorem pointer_discipline:
  "d_pointer (run_op x d) = (if x = Reset then 0 else d_pointer d + op_width x) \<and>
   d_payload (run_op x d) = d_payload d \<and>
   d_payload (run_ops xs d) = d_payload d \<and>
   (list_all forward_op xs \<longrightarrow> d_pointer d \<le> d_pointer (run_ops xs d))"
  using pointer_run_op payload_run_op payload_run_ops pointer_run_ops by blast

theorem pointer_discipline_witness:
  "list_all forward_op [Decode_8bit_uint, Decode_string 3, Decode_64bit_float, Skip_bytes 0] \<and>
   d_pointer (run_op Decode_32bit_uint (BinaryPayloadDecoder [1, 2] Little Big)) = 4 \<and>
   d_pointer (BinaryPayloadDecoder [1, 2] Little Big)
     \<le> d_pointer (run_ops [Decode_8bit_uint, Decode_string 3, Decode_64bit_float, Skip_bytes 0]
          (BinaryPayloadDecoder [1, 2] Little Big))"
  using pointer_discipline [of Decode_32bit_uint "BinaryPayloadDecoder [1, 2] Little Big"
      "[Decode_8bit_uint, Decode_string 3, Decode_64bit_float, Skip_bytes 0]"]
  by (simp add: forward_op_def BinaryPayloadDecoder_def)

text \<open>
  The sizes of \<open>skip_bytes\<close> and \<open>decode_string\<close> are not checked: a negative size
  moves the pointer back without any \<open>reset\<close>.
\<close>

theorem skip_back_counterexample:
  "\<not> d_pointer (BinaryPayloadDecoder [1, 2] Little Big)
       \<le> d_pointer (run_ops [Skip_bytes (- 1)] (BinaryPayloadDecoder [1, 2] Little Big))"
  by (simp add: skip_bytes_def advance_def BinaryPayloadDecoder_def)

section \<open>Reading past the end\<close>






lemma calcsize_simps [simp]:
  "calcsize CHR ''B'' = Some 1" "calcsize CHR ''b'' = Some 1" "calcsize CHR ''h'' = Some 2"
  "calcsize CHR ''I'' = Some 4" "calcsize CHR ''i'' = Some 4" "calcsize CHR ''Q'' = Some 8"
  "calcsize CHR ''q'' = Some 8" "calcsize CHR ''e'' = Some 2" "calcsize CHR ''f'' = Some 4"
  "calcsize CHR ''d'' = Some 8"
  by (simp_all add: calcsize_def)

lemma WC_lower_simps [simp]:
  "WC (lower CHR ''I'') = Some 4" "WC (lower CHR ''i'') = Some 4"
  "WC (lower CHR ''Q'') = Some 8" "WC (lower CHR ''q'') = Some 8"
  "WC (lower CHR ''e'') = Some 2" "WC (lower CHR ''f'') = Some 4"
  "WC (lower CHR ''d'') = Some 8"
  by (simp_all add: WC_def lower_def)




section \<open>The chunks of build\<close>

lemma length_padded: "length (padded s) = length s + length s mod 2"
  by (simp add: padded_def)

lemma even_length_padded: "even (length (padded s))"
  by (simp add: length_padded)

lemma py_range_padded: "py_range 0 (length s) 2 = py_range 0 (length (padded s)) 2"
proof -
  have "(length s + 1) div 2 = (length s + length s mod 2 + 1) div 2" by presburger
  then show ?thesis by (simp add: py_range_def length_padded)
qed

lemma build_chunks: "fst (build b) = chunks 2 (padded (fst (to_string b)))"
proof -
  let ?s = "concat (b_payload b)"
  have "fst (build b) = map (\<lambda>i. py_slice (padded ?s) (int i) (int i + 2)) (py_range 0 (length ?s) 2)"
    by (simp add: build_def to_string_def Let_def padded_def)
  also have "\<dots> = chunks 2 (padded ?s)"
    using slices2_chunks [of "padded ?s"] by (simp only: py_range_padded [symmetric])
  finally show ?thesis by (simp add: to_string_def)
qed

lemma build_lengths: "c \<in> set (fst (build b)) \<Longrightarrow> length c = 2"
  unfolding build_chunks
  using chunks_lengths [of 2 "padded (fst (to_string b))" c] even_length_padded by simp

lemma concat_build: "concat (fst (build b)) = padded (fst (to_string b))"
  unfolding build_chunks by (simp add: concat_chunks)

lemma length_build: "length (fst (build b)) = (length (fst (to_string b)) + 1) div 2"
proof -
  have "(length (fst (to_string b)) + length (fst (to_string b)) mod 2 + 1) div 2
          = (length (fst (to_string b)) + 1) div 2" by presburger
  then show ?thesis unfolding build_chunks by (simp add: length_chunks length_padded)
qed

lemma concat_last_pairs:
  "cs \<noteq> [] \<Longrightarrow> \<forall>c\<in>set cs. length c = 2 \<Longrightarrow> last cs ! 1 = last (concat cs)"
proof (induction cs)
  case Nil
  then show ?case by simp
next
  case (Cons c cs)
  show ?case
  proof (cases "cs = []")
    case True
    with Cons(3) have "length c = 2" by simp
    then obtain x y where "c = [x, y]"
      by (cases c; cases "tl c") (auto simp: length_Suc_conv)
    then show ?thesis using True by simp
  next
    case False
    then obtain c' where "c' \<in> set cs" by (cases cs) auto
    with Cons(3) have "length c' = 2" by simp
    with \<open>c' \<in> set cs\<close> have "concat cs \<noteq> []" by force
    then show ?thesis using Cons False by simp
  qed
qed

text \<open>
  C5: when the fragments total an odd number of bytes, \<open>build\<close> returns
  \<open>ceil(total / 2)\<close> chunks, each of two bytes, the second byte of the last chunk is
  zero, and the chunks together are the buffer followed by one zero byte.
\<close>

theorem build_odd_padding:
  assumes "odd (length (fst (to_string b)))"
  shows "length (fst (build b)) = (length (fst (to_string b)) + 1) div 2 \<and>
         list_all (\<lambda>c. length c = 2) (fst (build b)) \<and>
         last (fst (build b)) ! 1 = 0 \<and>
         concat (fst (build b)) = fst (to_string b) @ [0]"
proof -
  let ?s = "fst (to_string b)"
  have pad: "padded ?s = ?s @ [0]" using assms by (simp add: padded_def odd_iff_mod_2_eq_one)
  have ne: "fst (build b) \<noteq> []" using concat_build [of b] pad by auto
  have two: "\<forall>c\<in>set (fst (build b)). length c = 2" using build_lengths by blast
  have "last (fst (build b)) ! 1 = last (concat (fst (build b)))"
    using concat_last_pairs [OF ne two] .
  then have z: "last (fst (build b)) ! 1 = 0" by (simp add: concat_build pad)
  show ?thesis using length_build two z concat_build [of b] pad
    by (simp add: list_all_iff)
qed

theorem build_odd_padding_witness:
  "odd (length (fst (to_string (BinaryPayloadBuilder (Some [[1, 2], [3]]) Little Big False)))) \<and>
   length (fst (build (BinaryPayloadBuilder (Some [[1, 2], [3]]) Little Big False))) = 2 \<and>
   last (fst (build (BinaryPayloadBuilder (Some [[1, 2], [3]]) Little Big False))) ! 1 = 0"
proof -
  have o: "odd (length (fst (to_string (BinaryPayloadBuilder (Some [[1, 2], [3]]) Little Big False))))"
    by (simp add: to_string_def BinaryPayloadBuilder_def)
  show ?thesis using build_odd_padding [OF o] o
    by (simp add: to_string_def BinaryPayloadBuilder_def)
qed

section \<open>Unpacking what was packed\<close>

lemma in_order_twice [simp]: "in_order ord (in_order ord bs) = bs"
  by (cases ord) (simp_all add: in_order_def)

lemma length_in_order [simp]: "length (in_order ord bs) = length bs"
  by (cases ord) (simp_all add: in_order_def)


lemma pack_length: "pack ord c v = Inr bs \<Longrightarrow> calcsize c = Some (length bs)"
  by (auto simp: pack_def Let_def split: option.splits if_splits pyobj.splits)






section \<open>Word order and byte order\<close>

lemma in_order_network [simp]: "in_order network bs = bs"
  by (simp add: network_def in_order_def)









section \<open>Round trips\<close>

lemma remaining_fresh [simp]: "remaining (BinaryPayloadDecoder bs bo wo) = bs"
  by (simp add: remaining_def BinaryPayloadDecoder_def)

lemma pointer_fresh [simp]: "d_pointer (BinaryPayloadDecoder bs bo wo) = 0"
  by (simp add: BinaryPayloadDecoder_def)

lemma orders_fresh [simp]:
  "d_byteorder (BinaryPayloadDecoder bs bo wo) = bo"
  "d_wordorder (BinaryPayloadDecoder bs bo wo) = wo"
  by (simp_all add: BinaryPayloadDecoder_def)

lemma orders_advance [simp]:
  "d_byteorder (advance d n) = d_byteorder d" "d_wordorder (advance d n) = d_wordorder d"
  by (simp_all add: advance_def)





lemma fresh_orders [simp]:
  "b_byteorder (BinaryPayloadBuilder p bo wo rp) = bo"
  "b_wordorder (BinaryPayloadBuilder p bo wo rp) = wo"
  by (simp_all add: BinaryPayloadBuilder_def)



section \<open>The numeric round trip\<close>






lemma code_kinds [simp]:
  "\<not> is_float_code CHR ''B''" "\<not> is_float_code CHR ''b''" "\<not> is_float_code CHR ''h''"
  "\<not> is_float_code CHR ''I''" "\<not> is_float_code CHR ''i''" "\<not> is_float_code CHR ''Q''"
  "\<not> is_float_code CHR ''q''" "is_float_code CHR ''e''" "is_float_code CHR ''f''"
  "is_float_code CHR ''d''"
  "\<not> is_signed_code CHR ''B''" "is_signed_code CHR ''b''" "is_signed_code CHR ''h''"
  "\<not> is_signed_code CHR ''I''" "is_signed_code CHR ''i''" "\<not> is_signed_code CHR ''Q''"
  "is_signed_code CHR ''q''"
  by (simp_all add: is_float_code_def is_signed_code_def)



section \<open>Bits and bytes\<close>

lemma length_msb_bits [simp]: "length (msb_bits n v) = n"
  by (induction n arbitrary: v) auto

lemma bits_value_snoc: "bits_value (bs @ [b]) = 2 * bits_value bs + (if b then 1 else 0)"
  by (simp add: bits_value_def)

lemma bits_value_Nil [simp]: "bits_value [] = 0"
  by (simp add: bits_value_def)

lemma bits_value_msb_bits: "bits_value (msb_bits n v) = v mod 2 ^ n"
proof (induction n arbitrary: v)
  case 0
  then show ?case by simp
next
  case (Suc n)
  have "bits_value (msb_bits (Suc n) v) = 2 * ((v div 2) mod 2 ^ n) + v mod 2"
    by (simp add: bits_value_snoc Suc odd_iff_mod_2_eq_one)
  also have "\<dots> = v mod 2 ^ Suc n"
    by (simp add: mod_mult2_eq add.commute)
  finally show ?case .
qed



lemma length_bits_of_byte [simp]: "length (bits_of_byte w) = 8"
  by (simp add: bits_of_byte_def)

lemma byte_of_bits_of_byte [simp]: "byte_of_bits (bits_of_byte w) = w"
proof -
  have "unat w < 2 ^ 8" using unsigned_less [of w, where ?'a = nat] by simp
  then show ?thesis by (simp add: byte_of_bits_def bits_of_byte_def bits_value_msb_bits)
qed







section \<open>Registers and coils\<close>








lemma length_wire_chunk: "ch \<in> set (map (in_order ord) (fst (build b))) \<Longrightarrow> length ch = 2"
  by (auto simp: build_lengths)



section \<open>Decoders made from registers and coils\<close>










lemma map_truthy_PyBool [simp]: "map (truthy \<circ> PyBool) bs = bs"
  by (induction bs) simp_all






section \<open>Bits through the coils\<close>








section \<open>Reversibility of registers and coils\<close>






end
